theory Spec2Isabelle
  imports Complex_Main
begin

section \<open>Values and errors\<close>

text \<open>
  A landmark is a row of three floating-point coordinates, a landmark set is a numpy
  array of such rows. Floats are read as the real numbers they denote; the decimal
  literals of the source (0.1, 0.3, 0.7, ...) are the corresponding rationals.
  A Python exception is a value of type \<open>error\<close>; a function that can raise returns
  \<open>error + 'a\<close>, and a method that mutates its object returns the object as well
  (also when it raises: the mutations made before the exception stay).
  Arrays are values: the caller is taken not to write into an array after passing
  it (the first \<open>update\<close> of a filter keeps a view of the caller's row).
\<close>

type_synonym point = "real \<times> real \<times> real"

type_synonym ndarray = "point list"

datatype error = IndexError | TypeError | ValueError | ZeroDivisionError | NanStored

definition padd :: "point \<Rightarrow> point \<Rightarrow> point" where
  "padd a b = (case a of (ax, ay, az) \<Rightarrow> case b of (bx, by, bz) \<Rightarrow> (ax + bx, ay + by, az + bz))"

definition psub :: "point \<Rightarrow> point \<Rightarrow> point" where
  "psub a b = (case a of (ax, ay, az) \<Rightarrow> case b of (bx, by, bz) \<Rightarrow> (ax - bx, ay - by, az - bz))"

definition pscale :: "real \<Rightarrow> point \<Rightarrow> point" where
  "pscale k a = (case a of (ax, ay, az) \<Rightarrow> (k * ax, k * ay, k * az))"

definition pzero :: point where
  "pzero = (0, 0, 0)"


text \<open>\<open>landmarks[i]\<close> for a non-negative index: IndexError beyond the last row.\<close>

definition row :: "ndarray \<Rightarrow> nat \<Rightarrow> error + point" where
  "row lm i = (if i < length lm then Inr (lm ! i) else Inl IndexError)"

text \<open>
  Elementwise arithmetic of two arrays of rows, with numpy's shape rule on the first
  axis: equal lengths, or one of the two has a single row, which is then repeated;
  any other pair of shapes raises ValueError.
\<close>

definition np_binop :: "(point \<Rightarrow> point \<Rightarrow> point) \<Rightarrow> ndarray \<Rightarrow> ndarray \<Rightarrow> error + ndarray" where
  "np_binop f a b =
     (if length a = length b then Inr (map2 f a b)
      else if length a = 1 then Inr (map (f (a ! 0)) b)
      else if length b = 1 then Inr (map (\<lambda>u. f u (b ! 0)) a)
      else Inl ValueError)"

text \<open>
  \<open>collections.deque(maxlen=n).append(v)\<close>: the value goes to the right end and, when
  the deque is longer than n afterwards, entries leave at the left end.
\<close>

definition deque_append :: "nat \<Rightarrow> 'a list \<Rightarrow> 'a \<Rightarrow> 'a list" where
  "deque_append maxlen xs v = drop (Suc (length xs) - maxlen) (xs @ [v])"

section \<open>hand\_tracking\_optimizer.py\<close>

subsection \<open>KalmanFilter\<close>

text \<open>
  The fields dt, q, r, x, p, initialized carry the prefix \<open>kf_\<close>, since a record field
  is a constant and one-letter constants would capture the variables of every later
  statement. \<open>x\<close> and \<open>p\<close> start as None.
\<close>

record kalman_filter =
  kf_dt :: real
  kf_q :: real
  kf_r :: real
  kf_x :: "point option"
  kf_p :: "real option"
  kf_initialized :: bool

definition KalmanFilter :: "real \<Rightarrow> kalman_filter" where
  "KalmanFilter dt =
     \<lparr>kf_dt = dt, kf_q = 0.1, kf_r = 0.1, kf_x = None, kf_p = None, kf_initialized = False\<rparr>"

definition default_dt :: real where
  "default_dt = 0.033"

text \<open>
  \<open>predict\<close>: None for a filter that is not initialized; otherwise p grows by q and the
  estimate is returned. Adding to a p that is None is a TypeError.
\<close>

definition predict :: "kalman_filter \<Rightarrow> (error + point option) \<times> kalman_filter" where
  "predict f =
     (if \<not> kf_initialized f then (Inr None, f)
      else case kf_p f of
             None \<Rightarrow> (Inl TypeError, f)
           | Some pv \<Rightarrow> (Inr (kf_x f), f\<lparr>kf_p := Some (pv + kf_q f)\<rparr>))"

text \<open>
  \<open>update\<close>: the first observation is stored as it is. Later ones move the estimate by
  the gain k = p / (p + r); the division of two Python floats raises
  ZeroDivisionError on a zero divisor, and arithmetic on None is a TypeError (the
  gain is computed first, then the estimate, then p).
\<close>

definition update :: "kalman_filter \<Rightarrow> point \<Rightarrow> (error + point) \<times> kalman_filter" where
  "update f z =
     (if \<not> kf_initialized f
      then (Inr z, f\<lparr>kf_x := Some z, kf_p := Some 1, kf_initialized := True\<rparr>)
      else case kf_p f of
             None \<Rightarrow> (Inl TypeError, f)
           | Some pv \<Rightarrow>
               if pv + kf_r f = 0 then (Inl ZeroDivisionError, f)
               else let k = pv / (pv + kf_r f) in
                 (case kf_x f of
                    None \<Rightarrow> (Inl TypeError, f)
                  | Some xv \<Rightarrow>
                      let xn = padd xv (pscale k (psub z xv)) in
                      (Inr xn, f\<lparr>kf_x := Some xn, kf_p := Some ((1 - k) * pv)\<rparr>)))"

subsection \<open>HandTrackingOptimizer\<close>

record optimizer =
  buffer_size :: nat
  kalman_filters :: "kalman_filter list"
  position_buffer :: "ndarray list"
  velocity_history :: "ndarray list"

text \<open>
  The constructor: \<open>deque(maxlen=buffer_size)\<close> raises ValueError for a negative
  size, so no object exists then.
\<close>

definition HandTrackingOptimizer :: "int \<Rightarrow> error + optimizer" where
  "HandTrackingOptimizer b =
     (if b < 0 then Inl ValueError
      else Inr \<lparr>buffer_size = nat b,
                kalman_filters = replicate 21 (KalmanFilter default_dt),
                position_buffer = [],
                velocity_history = []\<rparr>)"

definition default_buffer_size :: int where
  "default_buffer_size = 5"

text \<open>
  The loop of \<open>smooth_landmarks\<close> over \<open>enumerate(self.kalman_filters)\<close>: the index
  runs with the filters, \<open>landmarks[i]\<close> raises IndexError when the array has no row
  i, and the filters visited before an exception keep their new state. \<open>filtered\<close> is
  a row, never None, so \<open>predict\<close> is always called; a None from \<open>predict\<close> would be
  stored by numpy as a row of NaN, which the reals do not have: that branch is the
  error \<open>NanStored\<close> (it is never taken, see \<open>predict_after_update\<close>).
\<close>

fun smooth_loop :: "ndarray \<Rightarrow> nat \<Rightarrow> kalman_filter list \<Rightarrow> ndarray
                     \<Rightarrow> (error + ndarray) \<times> kalman_filter list" where
  "smooth_loop lm i [] smoothed = (Inr smoothed, [])"
| "smooth_loop lm i (f # fs) smoothed =
     (case row lm i of
        Inl e \<Rightarrow> (Inl e, f # fs)
      | Inr z \<Rightarrow>
          (case update f z of
             (Inl e, f1) \<Rightarrow> (Inl e, f1 # fs)
           | (Inr filtered, f1) \<Rightarrow>
               (case predict f1 of
                  (Inl e, f2) \<Rightarrow> (Inl e, f2 # fs)
                | (Inr None, f2) \<Rightarrow> (Inl NanStored, f2 # fs)
                | (Inr (Some v), f2) \<Rightarrow>
                    (case smooth_loop lm (Suc i) fs (smoothed[i := v]) of
                       (res, fs') \<Rightarrow> (res, f2 # fs')))))"

definition smooth_landmarks :: "optimizer \<Rightarrow> ndarray option
                                  \<Rightarrow> (error + ndarray option) \<times> optimizer" where
  "smooth_landmarks s landmarks =
     (case landmarks of
        None \<Rightarrow> (Inr None, s)
      | Some lm \<Rightarrow>
          (case smooth_loop lm 0 (kalman_filters s) (replicate (length lm) pzero) of
             (Inl e, fs) \<Rightarrow> (Inl e, s\<lparr>kalman_filters := fs\<rparr>)
           | (Inr smoothed, fs) \<Rightarrow> (Inr (Some smoothed), s\<lparr>kalman_filters := fs\<rparr>)))"

definition predict_next_position :: "optimizer \<Rightarrow> error + ndarray option" where
  "predict_next_position s =
     (if length (position_buffer s) < 2 then Inr None
      else let recent_positions = drop (length (position_buffer s) - 2) (position_buffer s) in
        (case np_binop psub (recent_positions ! 1) (recent_positions ! 0) of
           Inl e \<Rightarrow> Inl e
         | Inr velocity \<Rightarrow>
             (case np_binop padd (recent_positions ! 1) velocity of
                Inl e \<Rightarrow> Inl e
              | Inr r \<Rightarrow> Inr (Some r))))"

definition handle_occlusion :: "optimizer \<Rightarrow> ndarray option \<Rightarrow> real \<Rightarrow> error + ndarray option" where
  "handle_occlusion s landmarks confidence =
     (if confidence < 0.3 \<and> length (position_buffer s) > 0
      then predict_next_position s
      else Inr landmarks)"

record tracking_quality =
  smoothness :: real
  stability :: real

definition get_tracking_quality :: "optimizer \<Rightarrow> error + tracking_quality" where
  "get_tracking_quality s =
     (if buffer_size s = 0 then Inl ZeroDivisionError
      else Inr \<lparr>smoothness = real (length (position_buffer s)) / real (buffer_size s),
                stability = (if length (velocity_history s) > 1 then 1 else 0)\<rparr>)"

text \<open>
  A call of one of the four public methods, and the object after the call. Only
  \<open>smooth_landmarks\<close> assigns to anything.
\<close>

datatype call =
    SmoothLandmarks "ndarray option"
  | PredictNextPosition
  | HandleOcclusion "ndarray option" real
  | GetTrackingQuality

fun after_call :: "optimizer \<Rightarrow> call \<Rightarrow> optimizer" where
  "after_call s (SmoothLandmarks lm) = snd (smooth_landmarks s lm)"
| "after_call s PredictNextPosition = s"
| "after_call s (HandleOcclusion lm c) = s"
| "after_call s GetTrackingQuality = s"

fun after_calls :: "optimizer \<Rightarrow> call list \<Rightarrow> optimizer" where
  "after_calls s [] = s"
| "after_calls s (c # cs) = after_calls (after_call s c) cs"

subsection \<open>Well-formed filters and the frame stream\<close>

text \<open>
  What the constructor and the two methods keep true of a filter: q and r are the
  constants 0.1, and an initialized filter has an estimate and a positive variance.
  An optimizer is well formed when it has its 21 filters and each of them is.
\<close>

definition filter_ok :: "kalman_filter \<Rightarrow> bool" where
  "filter_ok f =
     (kf_q f = 0.1 \<and> kf_r f = 0.1 \<and>
      (kf_initialized f \<longrightarrow>
         kf_x f \<noteq> None \<and> (case kf_p f of None \<Rightarrow> False | Some pv \<Rightarrow> 0 < pv)))"

definition optimizer_ok :: "optimizer \<Rightarrow> bool" where
  "optimizer_ok s = (length (kalman_filters s) = 21 \<and> list_all filter_ok (kalman_filters s))"

text \<open>One \<open>update\<close> followed by one \<open>predict\<close>, as the loop of \<open>smooth_landmarks\<close> does.\<close>

definition kf_round :: "kalman_filter \<Rightarrow> point \<Rightarrow> kalman_filter" where
  "kf_round f z = snd (predict (snd (update f z)))"

text \<open>
  The same landmark set on every frame: the result of the call on frame n (counted
  from 0) and the optimizer after it.
\<close>

fun frame_result :: "optimizer \<Rightarrow> ndarray \<Rightarrow> nat \<Rightarrow> (error + ndarray option) \<times> optimizer" where
  "frame_result s lm 0 = smooth_landmarks s (Some lm)"
| "frame_result s lm (Suc n) = smooth_landmarks (snd (frame_result s lm n)) (Some lm)"

section \<open>gesture\_recognition\_advanced.py\<close>

text \<open>
  A gesture definition is a dict with the key \<open>confidence_weight\<close> and, for all but
  one of the predefined gestures, the key \<open>fingers_extended\<close>. The definition table
  is a dict from names to definitions; its items are kept in insertion order, which
  decides ties of the maximum, so the table is an association list (a dict has no
  two items with the same key).
\<close>

record gesture_definition =
  fingers_extended :: "int option"
  confidence_weight :: real

record recognizer =
  history_length :: nat
  gesture_history :: "string list"
  confidence_threshold :: real
  gesture_definitions :: "(string \<times> gesture_definition) list"

definition load_gestures :: "(string \<times> gesture_definition) list" where
  "load_gestures =
     [(''open_palm'', \<lparr>fingers_extended = Some 5, confidence_weight = 1.0\<rparr>),
      (''fist'', \<lparr>fingers_extended = Some 0, confidence_weight = 0.95\<rparr>),
      (''peace'', \<lparr>fingers_extended = Some 2, confidence_weight = 0.9\<rparr>),
      (''thumbs_up'', \<lparr>fingers_extended = None, confidence_weight = 0.85\<rparr>),
      (''point'', \<lparr>fingers_extended = Some 1, confidence_weight = 0.88\<rparr>)]"

text \<open>The constructor; \<open>deque(maxlen=history_length)\<close> refuses a negative length.\<close>

definition AdvancedGestureRecognizer :: "int \<Rightarrow> error + recognizer" where
  "AdvancedGestureRecognizer n =
     (if n < 0 then Inl ValueError
      else Inr \<lparr>history_length = nat n,
                gesture_history = [],
                confidence_threshold = 0.7,
                gesture_definitions = load_gestures\<rparr>)"

definition default_history_length :: int where
  "default_history_length = 10"

definition finger_tips :: "nat list" where
  "finger_tips = [4, 8, 12, 16, 20]"

definition finger_pips :: "nat list" where
  "finger_pips = [3, 7, 11, 15, 19]"

definition coord_y :: "point \<Rightarrow> real" where
  "coord_y a = (case a of (ax, ay, az) \<Rightarrow> ay)"

text \<open>The loop of \<open>_count_extended_fingers\<close> over the (tip, pip) pairs.\<close>

fun count_loop :: "ndarray \<Rightarrow> (nat \<times> nat) list \<Rightarrow> int \<Rightarrow> error + int" where
  "count_loop lm [] extended_count = Inr extended_count"
| "count_loop lm ((tip, pip) # ps) extended_count =
     (case row lm tip of
        Inl e \<Rightarrow> Inl e
      | Inr t \<Rightarrow>
          (case row lm pip of
             Inl e \<Rightarrow> Inl e
           | Inr j \<Rightarrow>
               count_loop lm ps
                 (if coord_y t < coord_y j then extended_count + 1 else extended_count)))"

definition count_extended_fingers :: "ndarray \<Rightarrow> error + int" where
  "count_extended_fingers lm = count_loop lm (zip finger_tips finger_pips) 0"

record hand_shape =
  avg_distance :: real
  spread :: real
  palm_width :: real

definition planar_norm :: "point \<Rightarrow> point \<Rightarrow> real" where
  "planar_norm a c =
     (case a of (ax, ay, az) \<Rightarrow> case c of (cx, cy, cz) \<Rightarrow>
        sqrt ((ax - cx) * (ax - cx) + (ay - cy) * (ay - cy)))"

fun distance_loop :: "ndarray \<Rightarrow> point \<Rightarrow> nat list \<Rightarrow> real list \<Rightarrow> error + real list" where
  "distance_loop lm palm_center [] distances = Inr distances"
| "distance_loop lm palm_center (i # is) distances =
     (case row lm i of
        Inl e \<Rightarrow> Inl e
      | Inr t \<Rightarrow> distance_loop lm palm_center is (distances @ [planar_norm t palm_center]))"

definition np_mean :: "real list \<Rightarrow> real" where
  "np_mean ds = sum_list ds / real (length ds)"

definition np_std :: "real list \<Rightarrow> real" where
  "np_std ds = sqrt (np_mean (map (\<lambda>d. (d - np_mean ds) * (d - np_mean ds)) ds))"

definition analyze_hand_shape :: "ndarray \<Rightarrow> error + hand_shape" where
  "analyze_hand_shape lm =
     (case row lm 0 of
        Inl e \<Rightarrow> Inl e
      | Inr palm_center \<Rightarrow>
          (case distance_loop lm palm_center finger_tips [] of
             Inl e \<Rightarrow> Inl e
           | Inr distances \<Rightarrow>
               Inr \<lparr>avg_distance = np_mean distances,
                    spread = np_std distances,
                    palm_width = distances ! 0\<rparr>))"

text \<open>
  \<open>_calculate_gesture_score\<close>: the comparison is a bool, which multiplies as 1 or 0.
  The shape and the name are parameters the body does not read.
\<close>

definition calculate_gesture_score :: "int \<Rightarrow> hand_shape \<Rightarrow> string \<Rightarrow> gesture_definition \<Rightarrow> real" where
  "calculate_gesture_score fingers shape gesture definition =
     (let score = 0 +
            (case fingers_extended definition of
               None \<Rightarrow> 0
             | Some n \<Rightarrow> (if fingers = n then 1 else 0) * confidence_weight definition)
      in min 1 score)"

text \<open>
  \<open>max(items, key=lambda x: x[1])\<close>: the first item of the greatest key (a later item
  replaces the candidate only when its key is strictly greater); ValueError on an
  empty sequence.
\<close>

definition max_by_score :: "(string \<times> real) list \<Rightarrow> error + (string \<times> real)" where
  "max_by_score items =
     (case items of
        [] \<Rightarrow> Inl ValueError
      | it # rest \<Rightarrow> Inr (foldl (\<lambda>best y. if snd best < snd y then y else best) it rest))"

definition detect_gesture :: "recognizer \<Rightarrow> ndarray option
                                \<Rightarrow> (error + string \<times> real) \<times> recognizer" where
  "detect_gesture s hand_landmarks =
     (case hand_landmarks of
        None \<Rightarrow> (Inr (''unknown'', 0), s)
      | Some lm \<Rightarrow>
          (case count_extended_fingers lm of
             Inl e \<Rightarrow> (Inl e, s)
           | Inr fingers \<Rightarrow>
               (case analyze_hand_shape lm of
                  Inl e \<Rightarrow> (Inl e, s)
                | Inr shape \<Rightarrow>
                    let gesture_scores =
                          map (\<lambda>(gesture_name, definition).
                                 (gesture_name,
                                  calculate_gesture_score fingers shape gesture_name definition))
                              (gesture_definitions s)
                    in (case max_by_score gesture_scores of
                          Inl e \<Rightarrow> (Inl e, s)
                        | Inr best_gesture \<Rightarrow>
                            if snd best_gesture \<ge> confidence_threshold s
                            then (Inr best_gesture,
                                  s\<lparr>gesture_history :=
                                      deque_append (history_length s) (gesture_history s)
                                        (fst best_gesture)\<rparr>)
                            else (Inr (''unknown'', 0), s)))))"

definition get_gesture_pattern :: "recognizer \<Rightarrow> string list" where
  "get_gesture_pattern s = gesture_history s"

definition detect_gesture_combination :: "recognizer \<Rightarrow> string option" where
  "detect_gesture_combination s =
     (if length (gesture_history s) < 3 then None
      else let recent = drop (length (gesture_history s) - 3) (gesture_history s) in
        if length (remdups recent) = 1 then Some (''sustained_'' @ recent ! 0)
        else Some ''combination'')"

text \<open>The recognizer after a sequence of \<open>detect_gesture\<close> calls, one per frame.\<close>

fun detect_all :: "recognizer \<Rightarrow> ndarray option list \<Rightarrow> recognizer" where
  "detect_all s [] = s"
| "detect_all s (lm # lms) = detect_all (snd (detect_gesture s lm)) lms"

section \<open>Properties of the optimizer\<close>

subsection \<open>The two buffers are never written\<close>

lemma smooth_landmarks_buffers:
  "position_buffer (snd (smooth_landmarks s lm)) = position_buffer s \<and>
   velocity_history (snd (smooth_landmarks s lm)) = velocity_history s \<and>
   buffer_size (snd (smooth_landmarks s lm)) = buffer_size s"
  by (auto simp: smooth_landmarks_def split: option.splits prod.splits sum.splits)

lemma after_call_buffers:
  "position_buffer (after_call s c) = position_buffer s \<and>
   velocity_history (after_call s c) = velocity_history s \<and>
   buffer_size (after_call s c) = buffer_size s"
  by (cases c) (simp_all add: smooth_landmarks_buffers)

lemma after_calls_buffers:
  "position_buffer (after_calls s cs) = position_buffer s \<and>
   velocity_history (after_calls s cs) = velocity_history s \<and>
   buffer_size (after_calls s cs) = buffer_size s"
  by (induction cs arbitrary: s) (simp_all add: after_call_buffers)

text \<open>
  C1, as amended. In every state reached from a constructed optimizer by calls of
  \<open>smooth_landmarks\<close>, \<open>predict_next_position\<close>, \<open>handle_occlusion\<close> and
  \<open>get_tracking_quality\<close>, the position buffer and the velocity history are empty;
  so \<open>predict_next_position\<close> returns None, \<open>handle_occlusion\<close> returns its landmarks
  argument for every confidence, and, when the optimizer was built with a positive
  buffer size, \<open>get_tracking_quality\<close> reports smoothness 0 and stability 0.
\<close>

theorem buffers_stay_empty:
  assumes "HandTrackingOptimizer b = Inr s0"
  shows "position_buffer (after_calls s0 cs) = [] \<and>
         velocity_history (after_calls s0 cs) = [] \<and>
         predict_next_position (after_calls s0 cs) = Inr None \<and>
         handle_occlusion (after_calls s0 cs) lm confidence = Inr lm \<and>
         (0 < b \<longrightarrow> get_tracking_quality (after_calls s0 cs)
                       = Inr \<lparr>smoothness = 0, stability = 0\<rparr>)"
proof -
  from assms have s0: "position_buffer s0 = []" "velocity_history s0 = []" "buffer_size s0 = nat b"
    by (auto simp: HandTrackingOptimizer_def split: if_splits)
  have e: "position_buffer (after_calls s0 cs) = []" "velocity_history (after_calls s0 cs) = []"
          "buffer_size (after_calls s0 cs) = nat b"
    using after_calls_buffers [of s0 cs] s0 by simp_all
  show ?thesis
    using e by (simp add: predict_next_position_def handle_occlusion_def get_tracking_quality_def)
qed

theorem buffers_stay_empty_witness:
  "HandTrackingOptimizer 5 = Inr \<lparr>buffer_size = 5, kalman_filters = replicate 21 (KalmanFilter default_dt),
        position_buffer = [], velocity_history = []\<rparr> \<and>
   (let s = after_calls \<lparr>buffer_size = 5, kalman_filters = replicate 21 (KalmanFilter default_dt),
        position_buffer = [], velocity_history = []\<rparr>
        [SmoothLandmarks (Some [(1, 2, 3)]), HandleOcclusion None 0.2, GetTrackingQuality, PredictNextPosition]
    in position_buffer s = [] \<and> velocity_history s = [] \<and> predict_next_position s = Inr None \<and>
       handle_occlusion s (Some [(1, 2, 3)]) 0.1 = Inr (Some [(1, 2, 3)]) \<and>
       get_tracking_quality s = Inr \<lparr>smoothness = 0, stability = 0\<rparr>)"
proof -
  have h: "HandTrackingOptimizer 5 = Inr \<lparr>buffer_size = 5, kalman_filters = replicate 21 (KalmanFilter default_dt),
        position_buffer = [], velocity_history = []\<rparr>"
    by (simp add: HandTrackingOptimizer_def)
  show ?thesis
    using h buffers_stay_empty [OF h, of "[SmoothLandmarks (Some [(1, 2, 3)]), HandleOcclusion None 0.2, GetTrackingQuality, PredictNextPosition]" "Some [(1, 2, 3)]" "0.1"]
    by (simp add: Let_def)
qed

text \<open>
  C1 as stated fails for an optimizer built with buffer size 0: the constructor
  accepts the size, and \<open>get_tracking_quality\<close> then divides 0 by 0.
\<close>

theorem tracking_quality_zero_capacity_counterexample:
  "HandTrackingOptimizer 0 = Inr \<lparr>buffer_size = 0, kalman_filters = replicate 21 (KalmanFilter default_dt),
        position_buffer = [], velocity_history = []\<rparr> \<and>
   get_tracking_quality (after_calls \<lparr>buffer_size = 0, kalman_filters = replicate 21 (KalmanFilter default_dt),
        position_buffer = [], velocity_history = []\<rparr> []) = Inl ZeroDivisionError"
  by (simp add: HandTrackingOptimizer_def get_tracking_quality_def)

subsection \<open>The first observation of a filter\<close>

text \<open>
  C5. On a filter that is not yet initialized, \<open>update z\<close> returns z, stores z as the
  estimate, sets the error variance to 1 and marks the filter initialized; the
  \<open>predict\<close> that follows returns z. \<open>predict\<close> never changes the estimate of any
  filter.
\<close>

theorem kalman_initialization_identity:
  "\<not> kf_initialized f \<Longrightarrow>
     update f z = (Inr z, f\<lparr>kf_x := Some z, kf_p := Some 1, kf_initialized := True\<rparr>) \<and>
     fst (predict (snd (update f z))) = Inr (Some z) \<and>
     kf_x (snd (predict (snd (update f z)))) = Some z \<and>
     kf_x (snd (predict g)) = kf_x g"
  by (simp add: update_def predict_def split: option.splits)

theorem kalman_initialization_identity_witness:
  "\<not> kf_initialized (KalmanFilter default_dt) \<and>
   update (KalmanFilter default_dt) (1, 2, 3)
     = (Inr (1, 2, 3),
        (KalmanFilter default_dt)\<lparr>kf_x := Some (1, 2, 3), kf_p := Some 1, kf_initialized := True\<rparr>) \<and>
   fst (predict (snd (update (KalmanFilter default_dt) (1, 2, 3)))) = Inr (Some (1, 2, 3))"
proof -
  have h: "\<not> kf_initialized (KalmanFilter default_dt)"
    by (simp add: KalmanFilter_def)
  show ?thesis
    using h kalman_initialization_identity [OF h, of "(1, 2, 3)" "KalmanFilter default_dt"]
    by blast
qed

subsection \<open>Extrapolation from the position buffer\<close>

lemma map2_sub_add:
  "length v = length p \<Longrightarrow> map2 psub (map2 padd p v) p = v"
  by (induction v p rule: list_induct2) (auto simp: psub_def padd_def)

lemma map2_add_add:
  "length v = length p \<Longrightarrow> map2 padd (map2 padd p v) v = map2 padd p (map (pscale 2) v)"
  by (induction v p rule: list_induct2) (auto simp: pscale_def padd_def)

text \<open>
  C6. With fewer than two buffered samples \<open>predict_next_position\<close> returns None.
  When the last two samples are p and p + v (arrays of one shape, added row by row),
  it returns p + 2 v: the last sample plus the difference of the last two.
\<close>

theorem predict_next_position_extrapolates:
  "(length (position_buffer s) < 2 \<longrightarrow> predict_next_position s = Inr None) \<and>
   (position_buffer s = older @ [p, map2 padd p v] \<and> length v = length p \<longrightarrow>
      predict_next_position s = Inr (Some (map2 padd p (map (pscale 2) v))))"
  by (auto simp: predict_next_position_def Let_def np_binop_def map2_sub_add map2_add_add)

theorem predict_next_position_extrapolates_witness:
  "position_buffer \<lparr>buffer_size = 5, kalman_filters = [],
                    position_buffer = [[(0, 0, 0)], [(1, 1, 1)], map2 padd [(1, 1, 1)] [(1, 2, 3)]],
                    velocity_history = []\<rparr>
     = [[(0, 0, 0)]] @ [[(1, 1, 1)], map2 padd [(1, 1, 1)] [(1, 2, 3)]] \<and>
   length [(1, 2, 3) :: point] = length [(1, 1, 1) :: point] \<and>
   predict_next_position \<lparr>buffer_size = 5, kalman_filters = [],
                    position_buffer = [[(0, 0, 0)], [(1, 1, 1)], map2 padd [(1, 1, 1)] [(1, 2, 3)]],
                    velocity_history = []\<rparr>
     = Inr (Some [(3, 5, 7)])"
  using predict_next_position_extrapolates
    [of "\<lparr>buffer_size = 5, kalman_filters = [],
          position_buffer = [[(0, 0, 0)], [(1, 1, 1)], map2 padd [(1, 1, 1)] [(1, 2, 3)]],
          velocity_history = []\<rparr>" "[[(0, 0, 0)]]" "[(1, 1, 1)]" "[(1, 2, 3)]"]
  by (simp add: padd_def pscale_def)

text \<open>
  C2. When the confidence is below 0.3 and the position buffer is not empty,
  \<open>handle_occlusion\<close> returns what \<open>predict_next_position\<close> returns, whatever the
  landmarks argument is; in every other case it returns the landmarks argument. With
  two buffered samples a, b of one shape the result is b + (b - a); with a single
  buffered sample it is the None of \<open>predict_next_position\<close>.
\<close>

theorem handle_occlusion_cases:
  "(confidence < 0.3 \<and> position_buffer s \<noteq> [] \<longrightarrow>
      handle_occlusion s landmarks confidence = predict_next_position s) \<and>
   (\<not> (confidence < 0.3 \<and> position_buffer s \<noteq> []) \<longrightarrow>
      handle_occlusion s landmarks confidence = Inr landmarks) \<and>
   (confidence < 0.3 \<and> position_buffer s = older @ [a, b] \<and> length a = length b \<longrightarrow>
      handle_occlusion s landmarks confidence = Inr (Some (map2 padd b (map2 psub b a)))) \<and>
   (confidence < 0.3 \<and> position_buffer s = [a] \<longrightarrow>
      handle_occlusion s landmarks confidence = Inr None)"
  by (auto simp: handle_occlusion_def predict_next_position_def Let_def np_binop_def)

theorem handle_occlusion_cases_witness:
  "(0.2 :: real) < 0.3 \<and>
   position_buffer \<lparr>buffer_size = 5, kalman_filters = [],
                    position_buffer = [[(1, 1, 1)], [(2, 3, 4)]], velocity_history = []\<rparr>
     = [] @ [[(1, 1, 1)], [(2, 3, 4)]] \<and>
   handle_occlusion \<lparr>buffer_size = 5, kalman_filters = [],
                     position_buffer = [[(1, 1, 1)], [(2, 3, 4)]], velocity_history = []\<rparr>
       (Some [(9, 9, 9)]) 0.2
     = Inr (Some [(3, 5, 7)]) \<and>
   handle_occlusion \<lparr>buffer_size = 5, kalman_filters = [],
                     position_buffer = [[(1, 1, 1)], [(2, 3, 4)]], velocity_history = []\<rparr>
       (Some [(9, 9, 9)]) 0.3
     = Inr (Some [(9, 9, 9)])"
  using handle_occlusion_cases
    [of "0.2" "\<lparr>buffer_size = 5, kalman_filters = [],
                 position_buffer = [[(1, 1, 1)], [(2, 3, 4)]], velocity_history = []\<rparr>"
        "Some [(9, 9, 9)]" "[]" "[(1, 1, 1)]" "[(2, 3, 4)]",
     THEN conjunct2, THEN conjunct2, THEN conjunct1]
    handle_occlusion_cases
    [of "0.3" "\<lparr>buffer_size = 5, kalman_filters = [],
                 position_buffer = [[(1, 1, 1)], [(2, 3, 4)]], velocity_history = []\<rparr>"
        "Some [(9, 9, 9)]" "[]" "[(1, 1, 1)]" "[(2, 3, 4)]",
     THEN conjunct2, THEN conjunct1]
  by (simp add: padd_def psub_def)

section \<open>Properties of the recognizer\<close>

subsection \<open>The three-entry window\<close>

text \<open>
  C7. \<open>detect_gesture_combination\<close> returns None when the history holds fewer than
  three names. When it holds at least three, with a, b, c the last three, the result
  is \<open>sustained_\<close> followed by the name if a, b and c are the same name, and
  \<open>combination\<close> otherwise.
\<close>

theorem detect_combination_cases:
  "(length (gesture_history s) < 3 \<longrightarrow> detect_gesture_combination s = None) \<and>
   (gesture_history s = older @ [a, b, c] \<longrightarrow>
      detect_gesture_combination s =
        (if a = b \<and> b = c then Some (''sustained_'' @ a) else Some ''combination''))"
  by (auto simp: detect_gesture_combination_def Let_def)

theorem detect_combination_cases_witness:
  "gesture_history \<lparr>history_length = 10, gesture_history = [''peace'', ''fist'', ''fist'', ''fist''],
                    confidence_threshold = 0.7, gesture_definitions = load_gestures\<rparr>
     = [''peace''] @ [''fist'', ''fist'', ''fist''] \<and>
   detect_gesture_combination
       \<lparr>history_length = 10, gesture_history = [''peace'', ''fist'', ''fist'', ''fist''],
        confidence_threshold = 0.7, gesture_definitions = load_gestures\<rparr>
     = Some ''sustained_fist'' \<and>
   length (gesture_history \<lparr>history_length = 10, gesture_history = [''fist'', ''fist''],
                            confidence_threshold = 0.7, gesture_definitions = load_gestures\<rparr>) < 3 \<and>
   detect_gesture_combination
       \<lparr>history_length = 10, gesture_history = [''fist'', ''fist''],
        confidence_threshold = 0.7, gesture_definitions = load_gestures\<rparr>
     = None"
  using detect_combination_cases
    [of "\<lparr>history_length = 10, gesture_history = [''peace'', ''fist'', ''fist'', ''fist''],
          confidence_threshold = 0.7, gesture_definitions = load_gestures\<rparr>"
        "[''peace'']" "''fist''" "''fist''" "''fist''"]
    detect_combination_cases
    [of "\<lparr>history_length = 10, gesture_history = [''fist'', ''fist''],
          confidence_threshold = 0.7, gesture_definitions = load_gestures\<rparr>"
        "[]" "''fist''" "''fist''" "''fist''"]
  by simp

subsection \<open>Scoring and selection\<close>

lemma foldl_best_in:
  "foldl (\<lambda>best y. if snd best < snd y then y else best) (it :: string \<times> real) rest \<in> set (it # rest)"
  by (induction rest arbitrary: it) auto

lemma foldl_best_ge_start:
  "snd (it :: string \<times> real) \<le> snd (foldl (\<lambda>best y. if snd best < snd y then y else best) it rest)"
proof (induction rest arbitrary: it)
  case Nil
  show ?case by simp
next
  case (Cons y rest)
  show ?case
  proof (cases "snd it < snd y")
    case True
    with Cons [of y] show ?thesis by simp
  next
    case False
    with Cons [of it] show ?thesis by simp
  qed
qed

lemma foldl_best_max:
  "y \<in> set (it # rest) \<Longrightarrow>
     snd y \<le> snd (foldl (\<lambda>best y. if snd best < snd y then y else best) (it :: string \<times> real) rest)"
proof (induction rest arbitrary: it)
  case Nil
  then show ?case by simp
next
  case (Cons z rest)
  show ?case
  proof (cases "y = it")
    case True
    then show ?thesis using foldl_best_ge_start [of it "z # rest"] by simp
  next
    case False
    with Cons.prems have yin: "y \<in> set (z # rest)" by simp
    show ?thesis
    proof (cases "snd it < snd z")
      case True
      with Cons.IH [OF yin] show ?thesis by simp
    next
      case False
      have "y = z \<or> y \<in> set rest" using yin by auto
      then show ?thesis
      proof
        assume "y = z"
        with False have "snd y \<le> snd it" by simp
        also have "\<dots> \<le> snd (foldl (\<lambda>best y. if snd best < snd y then y else best) it rest)"
          by (rule foldl_best_ge_start)
        finally show ?thesis using False by simp
      next
        assume "y \<in> set rest"
        then have "y \<in> set (it # rest)" by simp
        from Cons.IH [OF this] show ?thesis using False by simp
      qed
    qed
  qed
qed

lemma max_by_score_in:
  "max_by_score items = Inr b \<Longrightarrow> b \<in> set items"
  using foldl_best_in by (auto simp: max_by_score_def split: list.splits)

lemma max_by_score_max:
  "max_by_score items = Inr b \<Longrightarrow> y \<in> set items \<Longrightarrow> snd y \<le> snd b"
proof (cases items)
  case Nil
  assume "y \<in> set items"
  with Nil show ?thesis by simp
next
  case (Cons it rest)
  assume "max_by_score items = Inr b" and yin: "y \<in> set items"
  with Cons have b: "b = foldl (\<lambda>best y. if snd best < snd y then y else best) it rest"
    by (simp add: max_by_score_def)
  from yin Cons have "y \<in> set (it # rest)" by simp
  from foldl_best_max [OF this] b show ?thesis by simp
qed

lemma max_by_score_nonempty:
  "items \<noteq> [] \<Longrightarrow> \<exists>b. max_by_score items = Inr b"
  by (auto simp: max_by_score_def split: list.splits)

lemma count_extended_fingers_ok:
  "21 \<le> length lm \<Longrightarrow> \<exists>c. count_extended_fingers lm = Inr c \<and> 0 \<le> c \<and> c \<le> 5"
  by (simp add: count_extended_fingers_def finger_tips_def finger_pips_def row_def)

lemma analyze_hand_shape_ok:
  "21 \<le> length lm \<Longrightarrow> \<exists>sh. analyze_hand_shape lm = Inr sh"
  by (cases lm) (simp_all add: analyze_hand_shape_def finger_tips_def row_def)

lemma score_no_count:
  "fingers_extended d = None \<Longrightarrow> calculate_gesture_score fingers shape g d = 0"
  by (simp add: calculate_gesture_score_def)


lemma detect_gesture_accepts:
  assumes "detect_gesture s lm = (r, s')"
  shows "(s' = s \<and> (r = Inr (''unknown'', 0) \<or> (\<exists>e. r = Inl e))) \<or>
         (\<exists>g d fingers shape.
            (g, d) \<in> set (gesture_definitions s) \<and>
            confidence_threshold s \<le> calculate_gesture_score fingers shape g d \<and>
            r = Inr (g, calculate_gesture_score fingers shape g d) \<and>
            s' = s\<lparr>gesture_history := deque_append (history_length s) (gesture_history s) g\<rparr>)"
proof (cases lm)
  case None
  with assms show ?thesis by (simp add: detect_gesture_def)
next
  case (Some a)
  show ?thesis
  proof (cases "count_extended_fingers a")
    case (Inl e)
    with Some assms show ?thesis by (auto simp: detect_gesture_def)
  next
    case fingers: (Inr fingers)
    show ?thesis
    proof (cases "analyze_hand_shape a")
      case (Inl e)
      with Some fingers assms show ?thesis by (auto simp: detect_gesture_def)
    next
      case shape: (Inr shape)
      let ?scores = "map (\<lambda>(gesture_name, definition).
                            (gesture_name, calculate_gesture_score fingers shape gesture_name definition))
                         (gesture_definitions s)"
      show ?thesis
      proof (cases "max_by_score ?scores")
        case (Inl e)
        have "detect_gesture s lm = (Inl e, s)"
          using Some fingers shape Inl by (simp add: detect_gesture_def)
        with assms show ?thesis by auto
      next
        case best: (Inr best)
        show ?thesis
        proof (cases "confidence_threshold s \<le> snd best")
          case False
          have "detect_gesture s lm = (Inr (''unknown'', 0), s)"
            using False Some fingers shape best by (simp add: detect_gesture_def)
          with assms show ?thesis by auto
        next
          case True
          from max_by_score_in [OF best] obtain g d where
            gd: "(g, d) \<in> set (gesture_definitions s)"
            and b: "best = (g, calculate_gesture_score fingers shape g d)"
            by auto
          have "detect_gesture s lm =
                  (Inr best,
                   s\<lparr>gesture_history :=
                       deque_append (history_length s) (gesture_history s) (fst best)\<rparr>)"
            using True Some fingers shape best by (simp add: detect_gesture_def)
          with assms have "r = Inr best"
            "s' = s\<lparr>gesture_history := deque_append (history_length s) (gesture_history s) (fst best)\<rparr>"
            by simp_all
          with gd b True show ?thesis by auto
        qed
      qed
    qed
  qed
qed

text \<open>
  C4. The score is the smaller of 1 and the weight when the definition has a finger
  count equal to the counted fingers, and 0 otherwise; so for a definition whose
  weight is at most 1 (the data model has weights in [0, 1]) it is the weight or 0. A definition without a finger count scores 0
  on every input. With a positive threshold, a name whose definitions all lack the
  finger count is never accepted by \<open>detect_gesture\<close>: it is returned only as the
  pair \<open>(unknown, 0)\<close> of a rejection, and it is never the name appended to the
  history.
\<close>

theorem gesture_score_cases:
  "calculate_gesture_score fingers shape g d =
     (if fingers_extended d = Some fingers then min 1 (confidence_weight d) else 0) \<and>
   (confidence_weight d \<le> 1 \<longrightarrow>
      calculate_gesture_score fingers shape g d =
        (if fingers_extended d = Some fingers then confidence_weight d else 0)) \<and>
   (fingers_extended d = None \<longrightarrow> calculate_gesture_score fingers shape g d = 0) \<and>
   (0 < confidence_threshold s \<and>
    (\<forall>d'. (name, d') \<in> set (gesture_definitions s) \<longrightarrow> fingers_extended d' = None) \<longrightarrow>
      (fst (detect_gesture s lm) = Inr (name, sc) \<longrightarrow> name = ''unknown'' \<and> sc = 0) \<and>
      (snd (detect_gesture s lm) = s \<or>
       (\<exists>accepted. accepted \<noteq> name \<and>
          snd (detect_gesture s lm) =
            s\<lparr>gesture_history :=
                deque_append (history_length s) (gesture_history s) accepted\<rparr>)))"
proof -
  have p0: "calculate_gesture_score fingers shape g d =
     (if fingers_extended d = Some fingers then min 1 (confidence_weight d) else 0)"
    by (auto simp: calculate_gesture_score_def split: option.splits)
  have p1: "calculate_gesture_score fingers shape g d =
        (if fingers_extended d = Some fingers then confidence_weight d else 0)"
    if "confidence_weight d \<le> 1"
    using that by (auto simp: calculate_gesture_score_def split: option.splits)
  have p2: "calculate_gesture_score fingers shape g d = 0" if "fingers_extended d = None"
    using that by (simp add: calculate_gesture_score_def)
  have p3: "(fst (detect_gesture s lm) = Inr (name, sc) \<longrightarrow> name = ''unknown'' \<and> sc = 0) \<and>
      (snd (detect_gesture s lm) = s \<or>
       (\<exists>accepted. accepted \<noteq> name \<and>
          snd (detect_gesture s lm) =
            s\<lparr>gesture_history :=
                deque_append (history_length s) (gesture_history s) accepted\<rparr>))"
    if thr: "0 < confidence_threshold s"
    and nc: "\<forall>d'. (name, d') \<in> set (gesture_definitions s) \<longrightarrow> fingers_extended d' = None"
  proof -
    obtain r s' where rs: "detect_gesture s lm = (r, s')" by (cases "detect_gesture s lm")
    have no: "\<not> confidence_threshold s \<le> calculate_gesture_score f sh name d'"
      if "(name, d') \<in> set (gesture_definitions s)" for d' f sh
      using that thr nc by (simp add: score_no_count)
    from detect_gesture_accepts [OF rs]
    consider (same) "s' = s" "r = Inr (''unknown'', 0) \<or> (\<exists>e. r = Inl e)"
      | (acc) g' d' f sh where "(g', d') \<in> set (gesture_definitions s)"
          "confidence_threshold s \<le> calculate_gesture_score f sh g' d'"
          "r = Inr (g', calculate_gesture_score f sh g' d')"
          "s' = s\<lparr>gesture_history := deque_append (history_length s) (gesture_history s) g'\<rparr>"
      by blast
    then show ?thesis
    proof cases
      case same
      then show ?thesis unfolding rs by auto
    next
      case acc
      from acc(1,2) no have "g' \<noteq> name" by blast
      with acc show ?thesis unfolding rs by auto
    qed
  qed
  from p0 p1 p2 p3 show ?thesis by blast
qed

theorem gesture_score_cases_witness:
  "confidence_weight \<lparr>fingers_extended = None, confidence_weight = 0.85\<rparr> \<le> 1 \<and>
   fingers_extended \<lparr>fingers_extended = None, confidence_weight = 0.85\<rparr> = None \<and>
   calculate_gesture_score 1 \<lparr>avg_distance = 0, spread = 0, palm_width = 0\<rparr> ''thumbs_up''
       \<lparr>fingers_extended = None, confidence_weight = 0.85\<rparr> = 0 \<and>
   0 < confidence_threshold \<lparr>history_length = 10, gesture_history = [],
                              confidence_threshold = 0.7, gesture_definitions = load_gestures\<rparr> \<and>
   map_of (gesture_definitions
              \<lparr>history_length = 10, gesture_history = [],
               confidence_threshold = 0.7, gesture_definitions = load_gestures\<rparr>) ''thumbs_up''
     = Some \<lparr>fingers_extended = None, confidence_weight = 0.85\<rparr> \<and>
   fst (detect_gesture \<lparr>history_length = 10, gesture_history = [],
                        confidence_threshold = 0.7, gesture_definitions = load_gestures\<rparr>
          (Some (replicate 21 (0, 0, 0)))) \<noteq> Inr (''thumbs_up'', 0.85)"
proof -
  have h1: "0 < confidence_threshold \<lparr>history_length = 10, gesture_history = [],
                              confidence_threshold = 0.7, gesture_definitions = load_gestures\<rparr>"
    by simp
  have h2: "\<forall>d'. (''thumbs_up'', d') \<in> set (gesture_definitions
              \<lparr>history_length = 10, gesture_history = [],
               confidence_threshold = 0.7, gesture_definitions = load_gestures\<rparr>)
          \<longrightarrow> fingers_extended d' = None"
    by (simp add: load_gestures_def)
  have h3: "map_of (gesture_definitions
              \<lparr>history_length = 10, gesture_history = [],
               confidence_threshold = 0.7, gesture_definitions = load_gestures\<rparr>) ''thumbs_up''
     = Some \<lparr>fingers_extended = None, confidence_weight = 0.85\<rparr>"
    by (simp add: load_gestures_def)
  show ?thesis
    using h1 h2 h3
      gesture_score_cases [where d = "\<lparr>fingers_extended = None, confidence_weight = 0.85\<rparr>"
        and fingers = 1 and shape = "\<lparr>avg_distance = 0, spread = 0, palm_width = 0\<rparr>"
        and g = "''thumbs_up''"
        and s = "\<lparr>history_length = 10, gesture_history = [],
                  confidence_threshold = 0.7, gesture_definitions = load_gestures\<rparr>"
        and name = "''thumbs_up''" and lm = "Some (replicate 21 (0, 0, 0))" and sc = "0.85"]
    by auto
qed

text \<open>
  C8. Without landmarks \<open>detect_gesture\<close> returns \<open>(unknown, 0)\<close> and the same
  recognizer. With a landmark set of at least 21 rows and a non-empty definition
  table, the finger count and the shape are computed, the item \<open>best\<close> of greatest
  score is chosen, and the call either appends the one name of \<open>best\<close> to the
  bounded history and returns \<open>best\<close>, exactly when its score reaches the threshold,
  or returns \<open>(unknown, 0)\<close> and the same recognizer.
\<close>

theorem detect_gesture_cases:
  "detect_gesture s None = (Inr (''unknown'', 0), s) \<and>
   (21 \<le> length lm \<and> gesture_definitions s \<noteq> [] \<longrightarrow>
      (\<exists>fingers shape best.
         count_extended_fingers lm = Inr fingers \<and>
         analyze_hand_shape lm = Inr shape \<and>
         max_by_score (map (\<lambda>(gesture_name, definition).
                              (gesture_name,
                               calculate_gesture_score fingers shape gesture_name definition))
                           (gesture_definitions s)) = Inr best \<and>
         (\<forall>(gesture_name, definition) \<in> set (gesture_definitions s).
            calculate_gesture_score fingers shape gesture_name definition \<le> snd best) \<and>
         detect_gesture s (Some lm) =
           (if confidence_threshold s \<le> snd best
            then (Inr best,
                  s\<lparr>gesture_history :=
                      deque_append (history_length s) (gesture_history s) (fst best)\<rparr>)
            else (Inr (''unknown'', 0), s))))"
proof (intro conjI impI)
  show "detect_gesture s None = (Inr (''unknown'', 0), s)"
    by (simp add: detect_gesture_def)
next
  assume h: "21 \<le> length lm \<and> gesture_definitions s \<noteq> []"
  from h count_extended_fingers_ok obtain fingers where f: "count_extended_fingers lm = Inr fingers"
    by blast
  from h analyze_hand_shape_ok obtain shape where sh: "analyze_hand_shape lm = Inr shape"
    by blast
  let ?scores = "map (\<lambda>(gesture_name, definition).
                        (gesture_name, calculate_gesture_score fingers shape gesture_name definition))
                     (gesture_definitions s)"
  from h have "?scores \<noteq> []" by simp
  from max_by_score_nonempty [OF this] obtain best where b: "max_by_score ?scores = Inr best"
    by blast
  have mx1: "calculate_gesture_score fingers shape gn df \<le> snd best"
    if "(gn, df) \<in> set (gesture_definitions s)" for gn df
  proof -
    from that have "(gn, calculate_gesture_score fingers shape gn df) \<in> set ?scores"
      by force
    from max_by_score_max [OF b this] show ?thesis by simp
  qed
  have mx: "\<forall>(gesture_name, definition) \<in> set (gesture_definitions s).
            calculate_gesture_score fingers shape gesture_name definition \<le> snd best"
    using mx1 by auto
  have "detect_gesture s (Some lm) =
           (if confidence_threshold s \<le> snd best
            then (Inr best,
                  s\<lparr>gesture_history :=
                      deque_append (history_length s) (gesture_history s) (fst best)\<rparr>)
            else (Inr (''unknown'', 0), s))"
    using f sh b by (simp add: detect_gesture_def)
  with f sh b mx show "\<exists>fingers shape best.
         count_extended_fingers lm = Inr fingers \<and>
         analyze_hand_shape lm = Inr shape \<and>
         max_by_score (map (\<lambda>(gesture_name, definition).
                              (gesture_name,
                               calculate_gesture_score fingers shape gesture_name definition))
                           (gesture_definitions s)) = Inr best \<and>
         (\<forall>(gesture_name, definition) \<in> set (gesture_definitions s).
            calculate_gesture_score fingers shape gesture_name definition \<le> snd best) \<and>
         detect_gesture s (Some lm) =
           (if confidence_threshold s \<le> snd best
            then (Inr best,
                  s\<lparr>gesture_history :=
                      deque_append (history_length s) (gesture_history s) (fst best)\<rparr>)
            else (Inr (''unknown'', 0), s))"
    by blast
qed

theorem detect_gesture_cases_witness:
  "21 \<le> length (replicate 21 (0 :: real, 0 :: real, 0 :: real)) \<and>
   gesture_definitions \<lparr>history_length = 10, gesture_history = [],
                        confidence_threshold = 0.7, gesture_definitions = load_gestures\<rparr> \<noteq> [] \<and>
   detect_gesture \<lparr>history_length = 10, gesture_history = [],
                   confidence_threshold = 0.7, gesture_definitions = load_gestures\<rparr>
       (Some (replicate 21 (0, 0, 0)))
     = (Inr (''fist'', 0.95),
        \<lparr>history_length = 10, gesture_history = [''fist''],
         confidence_threshold = 0.7, gesture_definitions = load_gestures\<rparr>)"
proof -
  have h: "21 \<le> length (replicate 21 (0 :: real, 0 :: real, 0 :: real)) \<and>
     gesture_definitions \<lparr>history_length = 10, gesture_history = [],
                        confidence_threshold = 0.7, gesture_definitions = load_gestures\<rparr> \<noteq> []"
    by (simp add: load_gestures_def)
  from detect_gesture_cases
         [where s = "\<lparr>history_length = 10, gesture_history = [],
                      confidence_threshold = 0.7, gesture_definitions = load_gestures\<rparr>"
            and lm = "replicate 21 (0, 0, 0)", THEN conjunct2, rule_format, OF h]
  obtain fingers shape best where
    f: "count_extended_fingers (replicate 21 (0, 0, 0)) = Inr fingers"
    and b: "max_by_score (map (\<lambda>(gesture_name, definition).
                              (gesture_name,
                               calculate_gesture_score fingers shape gesture_name definition))
                           load_gestures) = Inr best"
    and d: "detect_gesture \<lparr>history_length = 10, gesture_history = [],
                   confidence_threshold = 0.7, gesture_definitions = load_gestures\<rparr>
       (Some (replicate 21 (0, 0, 0))) =
           (if 0.7 \<le> snd best
            then (Inr best,
                  \<lparr>history_length = 10, gesture_history = deque_append 10 [] (fst best),
                   confidence_threshold = 0.7, gesture_definitions = load_gestures\<rparr>)
            else (Inr (''unknown'', 0), \<lparr>history_length = 10, gesture_history = [],
                   confidence_threshold = 0.7, gesture_definitions = load_gestures\<rparr>))"
    by auto
  from f have "fingers = 0"
    by (simp add: count_extended_fingers_def finger_tips_def finger_pips_def row_def coord_y_def)
  with b have "best = (''fist'', 0.95)"
    by (simp add: load_gestures_def calculate_gesture_score_def max_by_score_def)
  with d h show ?thesis by (simp add: deque_append_def)
qed

subsection \<open>The bounded history\<close>

lemma deque_append_length:
  "length xs \<le> n \<Longrightarrow> length (deque_append n xs v) \<le> n"
  by (simp add: deque_append_def)

lemma detect_gesture_history_step:
  "gesture_history (snd (detect_gesture s lm)) = gesture_history s \<or>
   (\<exists>g. gesture_history (snd (detect_gesture s lm))
           = deque_append (history_length s) (gesture_history s) g)"
proof -
  obtain r s' where rs: "detect_gesture s lm = (r, s')" by (cases "detect_gesture s lm")
  from detect_gesture_accepts [OF rs] show ?thesis unfolding rs by auto
qed

lemma detect_gesture_capacity:
  "history_length (snd (detect_gesture s lm)) = history_length s"
proof -
  obtain r s' where rs: "detect_gesture s lm = (r, s')" by (cases "detect_gesture s lm")
  from detect_gesture_accepts [OF rs] show ?thesis unfolding rs by auto
qed

lemma detect_all_bounded:
  "length (gesture_history s) \<le> history_length s \<Longrightarrow>
     length (gesture_history (detect_all s frames)) \<le> history_length s \<and>
     history_length (detect_all s frames) = history_length s"
proof (induction frames arbitrary: s)
  case Nil
  then show ?case by simp
next
  case (Cons lm frames)
  let ?s = "snd (detect_gesture s lm)"
  have cap: "history_length ?s = history_length s" by (rule detect_gesture_capacity)
  have "length (gesture_history ?s) \<le> history_length s"
    using detect_gesture_history_step [of s lm] Cons.prems deque_append_length by auto
  with cap have "length (gesture_history ?s) \<le> history_length ?s" by simp
  from Cons.IH [OF this] cap show ?case by simp
qed

text \<open>
  C9. After any sequence of \<open>detect_gesture\<close> calls on a constructed recognizer the
  history is no longer than the capacity given to the constructor (10 by default).
  A call leaves the history as it is or appends one name with the deque's rule:
  below capacity the name is added at the end, at capacity the oldest entry leaves
  and the others keep their order before the new name.
\<close>

theorem gesture_history_bounded:
  "(AdvancedGestureRecognizer n = Inr s0 \<longrightarrow>
      length (gesture_history (detect_all s0 frames)) \<le> nat n) \<and>
   (gesture_history (snd (detect_gesture s lm)) = gesture_history s \<or>
    (\<exists>g. gesture_history (snd (detect_gesture s lm))
            = deque_append (history_length s) (gesture_history s) g)) \<and>
   (length xs < cap \<longrightarrow> deque_append cap xs v = xs @ [v]) \<and>
   (length xs = cap \<and> 0 < cap \<longrightarrow> deque_append cap xs v = tl xs @ [v])"
proof (intro conjI impI)
  assume a: "AdvancedGestureRecognizer n = Inr s0"
  then have "gesture_history s0 = []" "history_length s0 = nat n"
    by (auto simp: AdvancedGestureRecognizer_def split: if_splits)
  with detect_all_bounded [of s0 frames]
  show "length (gesture_history (detect_all s0 frames)) \<le> nat n" by simp
next
  show "gesture_history (snd (detect_gesture s lm)) = gesture_history s \<or>
    (\<exists>g. gesture_history (snd (detect_gesture s lm))
            = deque_append (history_length s) (gesture_history s) g)"
    by (rule detect_gesture_history_step)
next
  assume "length xs < cap"
  then show "deque_append cap xs v = xs @ [v]" by (simp add: deque_append_def)
next
  assume "length xs = cap \<and> 0 < cap"
  then show "deque_append cap xs v = tl xs @ [v]"
    by (cases xs) (auto simp: deque_append_def)
qed

theorem gesture_history_bounded_witness:
  "AdvancedGestureRecognizer default_history_length
     = Inr \<lparr>history_length = 10, gesture_history = [],
            confidence_threshold = 0.7, gesture_definitions = load_gestures\<rparr> \<and>
   length (gesture_history (detect_all
       \<lparr>history_length = 10, gesture_history = [],
        confidence_threshold = 0.7, gesture_definitions = load_gestures\<rparr>
       [Some (replicate 21 (0, 0, 0)), None, Some (replicate 21 (0, 0, 0))])) \<le> 10 \<and>
   length [''fist'', ''peace''] = (2 :: nat) \<and> (0 :: nat) < 2 \<and>
   deque_append 2 [''fist'', ''peace''] ''point'' = [''peace'', ''point''] \<and>
   length [''fist''] < (2 :: nat) \<and>
   deque_append 2 [''fist''] ''peace'' = [''fist'', ''peace'']"
proof -
  have h: "AdvancedGestureRecognizer default_history_length
     = Inr \<lparr>history_length = 10, gesture_history = [],
            confidence_threshold = 0.7, gesture_definitions = load_gestures\<rparr>"
    by (simp add: AdvancedGestureRecognizer_def default_history_length_def)
  show ?thesis
    using h
      gesture_history_bounded [where n = default_history_length
        and ?s0.0 = "\<lparr>history_length = 10, gesture_history = [],
                      confidence_threshold = 0.7, gesture_definitions = load_gestures\<rparr>"
        and frames = "[Some (replicate 21 (0, 0, 0)), None, Some (replicate 21 (0, 0, 0))]"
        and xs = "[''fist'', ''peace'']" and cap = 2 and v = "''point''",
        THEN conjunct1]
      gesture_history_bounded [where xs = "[''fist'', ''peace'']" and cap = 2 and v = "''point''",
        THEN conjunct2, THEN conjunct2, THEN conjunct2]
      gesture_history_bounded [where xs = "[''fist'']" and cap = 2 and v = "''peace''",
        THEN conjunct2, THEN conjunct2, THEN conjunct1]
    by (simp add: default_history_length_def)
qed

section \<open>Properties of the smoothing pass\<close>

subsection \<open>One round of a well-formed filter\<close>

lemma filter_ok_new: "filter_ok (KalmanFilter dt)"
  by (simp add: filter_ok_def KalmanFilter_def)

lemma update_ok:
  assumes "filter_ok f"
  shows "\<exists>xn. update f z = (Inr xn, snd (update f z)) \<and>
              kf_x (snd (update f z)) = Some xn \<and>
              kf_initialized (snd (update f z)) \<and>
              filter_ok (snd (update f z))"
proof (cases "kf_initialized f")
  case False
  with assms show ?thesis
    by (intro exI [of _ z]) (simp add: update_def filter_ok_def)
next
  case True
  with assms obtain xv pv where xp: "kf_x f = Some xv" "kf_p f = Some pv" "0 < pv"
    by (auto simp: filter_ok_def split: option.splits)
  from assms have r: "kf_r f = 1 / 10" "kf_q f = 1 / 10" by (simp_all add: filter_ok_def)
  have nz: "pv + 1 / 10 \<noteq> 0" using xp(3) by simp
  have pos: "0 < (1 - pv / (pv + 1 / 10)) * pv"
  proof -
    have "1 - pv / (pv + 1 / 10) = (1 / 10) / (pv + 1 / 10)"
      using nz by (simp add: field_simps)
    moreover have "0 < (1 / 10) / (pv + 1 / 10)" using xp(3) by simp
    ultimately show ?thesis using xp(3) by simp
  qed
  show ?thesis
    using True xp(3) nz pos
    by (intro exI [of _ "padd xv (pscale (pv / (pv + 1 / 10)) (psub z xv))"])
       (simp add: update_def filter_ok_def Let_def r xp(1,2))
qed

lemma predict_after_update:
  assumes "filter_ok f"
  shows "\<exists>xn. update f z = (Inr xn, snd (update f z)) \<and>
              predict (snd (update f z)) = (Inr (Some xn), kf_round f z) \<and>
              kf_x (kf_round f z) = Some xn \<and>
              kf_initialized (kf_round f z) \<and>
              filter_ok (kf_round f z)"
proof -
  from update_ok [OF assms, of z] obtain xn where
    u: "update f z = (Inr xn, snd (update f z))"
    and x: "kf_x (snd (update f z)) = Some xn"
    and i: "kf_initialized (snd (update f z))"
    and ok: "filter_ok (snd (update f z))"
    by blast
  from ok i obtain pv where p: "kf_p (snd (update f z)) = Some pv" "0 < pv"
    by (auto simp: filter_ok_def split: option.splits)
  from ok have q: "kf_q (snd (update f z)) = 1 / 10" "kf_r (snd (update f z)) = 1 / 10"
    by (simp_all add: filter_ok_def)
  have "predict (snd (update f z)) = (Inr (Some xn), kf_round f z)"
    using i p x by (simp add: predict_def kf_round_def)
  moreover have "kf_x (kf_round f z) = Some xn" "kf_initialized (kf_round f z)"
    using i p x by (simp_all add: predict_def kf_round_def)
  moreover have "filter_ok (kf_round f z)"
    using i p(2) by (simp add: predict_def kf_round_def filter_ok_def q p(1) x)
  ultimately show ?thesis using u by blast
qed


lemma smooth_loop_step:
  assumes "filter_ok f" and "i < length lm"
  shows "\<exists>xn. kf_x (kf_round f (lm ! i)) = Some xn \<and>
              smooth_loop lm i (f # fs) sm =
                (fst (smooth_loop lm (Suc i) fs (sm[i := xn])),
                 kf_round f (lm ! i) # snd (smooth_loop lm (Suc i) fs (sm[i := xn])))"
proof -
  from predict_after_update [OF assms(1), of "lm ! i"] obtain xn where
    u: "update f (lm ! i) = (Inr xn, snd (update f (lm ! i)))"
    and p: "predict (snd (update f (lm ! i))) = (Inr (Some xn), kf_round f (lm ! i))"
    and x: "kf_x (kf_round f (lm ! i)) = Some xn"
    by blast
  have r: "row lm i = Inr (lm ! i)" using assms(2) by (simp add: row_def)
  have "smooth_loop lm i (f # fs) sm =
          (case update f (lm ! i) of
             (Inl e, f1) \<Rightarrow> (Inl e, f1 # fs)
           | (Inr filtered, f1) \<Rightarrow>
               (case predict f1 of
                  (Inl e, f2) \<Rightarrow> (Inl e, f2 # fs)
                | (Inr None, f2) \<Rightarrow> (Inl NanStored, f2 # fs)
                | (Inr (Some v), f2) \<Rightarrow>
                    (case smooth_loop lm (Suc i) fs (sm[i := v]) of
                       (res, fs') \<Rightarrow> (res, f2 # fs'))))"
    by (simp add: r)
  also have "\<dots> = (case smooth_loop lm (Suc i) fs (sm[i := xn]) of
                       (res, fs') \<Rightarrow> (res, kf_round f (lm ! i) # fs'))"
    by (subst u) (simp add: p)
  also have "\<dots> = (fst (smooth_loop lm (Suc i) fs (sm[i := xn])),
                 kf_round f (lm ! i) # snd (smooth_loop lm (Suc i) fs (sm[i := xn])))"
    by (simp add: case_prod_beta)
  finally show ?thesis using x by blast
qed

lemma smooth_loop_keeps_ok:
  "list_all filter_ok fs \<Longrightarrow>
     list_all filter_ok (snd (smooth_loop lm i fs sm)) \<and>
     length (snd (smooth_loop lm i fs sm)) = length fs"
proof (induction fs arbitrary: i sm)
  case Nil
  show ?case by simp
next
  case (Cons f fs)
  then have f: "filter_ok f" and fs: "list_all filter_ok fs" by simp_all
  show ?case
  proof (cases "i < length lm")
    case False
    with Cons.prems show ?thesis by (simp add: row_def)
  next
    case True
    from smooth_loop_step [OF f True, of fs sm] obtain xn where
      e: "smooth_loop lm i (f # fs) sm =
                (fst (smooth_loop lm (Suc i) fs (sm[i := xn])),
                 kf_round f (lm ! i) # snd (smooth_loop lm (Suc i) fs (sm[i := xn])))"
      by blast
    from predict_after_update [OF f, of "lm ! i"] have "filter_ok (kf_round f (lm ! i))"
      by blast
    with Cons.IH [OF fs, of "Suc i" "sm[i := xn]"] show ?thesis
      unfolding e by simp
  qed
qed

lemma smooth_loop_short:
  "list_all filter_ok fs \<Longrightarrow> i \<le> length lm \<Longrightarrow> length lm < i + length fs \<Longrightarrow>
     fst (smooth_loop lm i fs sm) = Inl IndexError"
proof (induction fs arbitrary: i sm)
  case Nil
  then show ?case by simp
next
  case (Cons f fs)
  then have f: "filter_ok f" and fs: "list_all filter_ok fs" by simp_all
  show ?case
  proof (cases "i < length lm")
    case False
    then show ?thesis by (simp add: row_def)
  next
    case True
    from smooth_loop_step [OF f True, of fs sm] obtain xn where
      e: "smooth_loop lm i (f # fs) sm =
                (fst (smooth_loop lm (Suc i) fs (sm[i := xn])),
                 kf_round f (lm ! i) # snd (smooth_loop lm (Suc i) fs (sm[i := xn])))"
      by blast
    from True Cons.prems have "Suc i \<le> length lm" "length lm < Suc i + length fs" by simp_all
    from Cons.IH [OF fs this, of "sm[i := xn]"] show ?thesis unfolding e by simp
  qed
qed

lemma smooth_loop_long:
  "list_all filter_ok fs \<Longrightarrow> i + length fs \<le> length lm \<Longrightarrow>
     \<exists>out. smooth_loop lm i fs sm = (Inr out, map2 kf_round fs (drop i lm)) \<and>
           length out = length sm \<and>
           (\<forall>j. j < i \<or> i + length fs \<le> j \<longrightarrow> out ! j = sm ! j) \<and>
           (\<forall>j. i \<le> j \<and> j < i + length fs \<and> j < length sm \<longrightarrow>
                 kf_x (kf_round (fs ! (j - i)) (lm ! j)) = Some (out ! j))"
proof (induction fs arbitrary: i sm)
  case Nil
  show ?case by auto
next
  case (Cons f fs)
  then have f: "filter_ok f" and fs: "list_all filter_ok fs" by simp_all
  from Cons.prems have il: "i < length lm" and rest: "Suc i + length fs \<le> length lm" by simp_all
  from smooth_loop_step [OF f il, of fs sm] obtain xn where
    x: "kf_x (kf_round f (lm ! i)) = Some xn"
    and e: "smooth_loop lm i (f # fs) sm =
                (fst (smooth_loop lm (Suc i) fs (sm[i := xn])),
                 kf_round f (lm ! i) # snd (smooth_loop lm (Suc i) fs (sm[i := xn])))"
    by blast
  from Cons.IH [OF fs rest, of "sm[i := xn]"] obtain out where
    o: "smooth_loop lm (Suc i) fs (sm[i := xn]) = (Inr out, map2 kf_round fs (drop (Suc i) lm))"
    and len: "length out = length sm"
    and outside: "\<forall>j. j < Suc i \<or> Suc i + length fs \<le> j \<longrightarrow> out ! j = (sm[i := xn]) ! j"
    and inside: "\<forall>j. Suc i \<le> j \<and> j < Suc i + length fs \<and> j < length sm \<longrightarrow>
                 kf_x (kf_round (fs ! (j - Suc i)) (lm ! j)) = Some (out ! j)"
    by auto
  have d: "drop i lm = lm ! i # drop (Suc i) lm"
    using il by (simp add: Cons_nth_drop_Suc)
  have 1: "smooth_loop lm i (f # fs) sm = (Inr out, map2 kf_round (f # fs) (drop i lm))"
    unfolding e o d by simp
  have 2: "\<forall>j. j < i \<or> i + length (f # fs) \<le> j \<longrightarrow> out ! j = sm ! j"
    using outside by auto
  have 3: "\<forall>j. i \<le> j \<and> j < i + length (f # fs) \<and> j < length sm \<longrightarrow>
                 kf_x (kf_round ((f # fs) ! (j - i)) (lm ! j)) = Some (out ! j)"
  proof (intro allI impI)
    fix j assume j: "i \<le> j \<and> j < i + length (f # fs) \<and> j < length sm"
    show "kf_x (kf_round ((f # fs) ! (j - i)) (lm ! j)) = Some (out ! j)"
    proof (cases "j = i")
      case True
      with outside j have "out ! j = xn" by simp
      with True x show ?thesis by simp
    next
      case False
      with j have "Suc i \<le> j \<and> j < Suc i + length fs \<and> j < length sm" by simp
      with inside have "kf_x (kf_round (fs ! (j - Suc i)) (lm ! j)) = Some (out ! j)" by blast
      moreover from False j have "(f # fs) ! (j - i) = fs ! (j - Suc i)"
        by (simp add: nth_Cons')
      ultimately show ?thesis by simp
    qed
  qed
  from 1 len 2 3 show ?case by blast
qed

lemma round_estimate:
  assumes "filter_ok g" and "kf_initialized g" and "kf_x g = Some x1" and "kf_p g = Some pv"
  shows "kf_x (kf_round g z) = Some (padd x1 (pscale (pv / (pv + 1 / 10)) (psub z x1))) \<and>
         kf_p (kf_round g z) = Some ((1 - pv / (pv + 1 / 10)) * pv + 1 / 10) \<and>
         0 < pv"
proof -
  from assms have r: "kf_r g = 1 / 10" "kf_q g = 1 / 10" and pos: "0 < pv"
    by (simp_all add: filter_ok_def)
  have nz: "pv + 1 / 10 \<noteq> 0" using pos by simp
  show ?thesis
    using assms(2) nz pos
    by (simp add: kf_round_def update_def predict_def Let_def r assms(3,4))
qed

lemma round_output:
  assumes "filter_ok f" and "kf_x (kf_round f z) = Some v"
  shows "fst (update f z) = Inr v \<and>
         (\<not> kf_initialized f \<longrightarrow> v = z) \<and>
         (\<forall>xv pv. kf_initialized f \<and> kf_x f = Some xv \<and> kf_p f = Some pv \<longrightarrow>
                  v = padd xv (pscale (pv / (pv + 0.1)) (psub z xv)))"
proof -
  from predict_after_update [OF assms(1), of z] assms(2)
  have u: "update f z = (Inr v, snd (update f z))" by auto
  then have 1: "fst (update f z) = Inr v" by (metis fst_conv)
  have 2: "v = z" if "\<not> kf_initialized f"
  proof -
    from that have "fst (update f z) = Inr z" by (simp add: update_def)
    with 1 show ?thesis by simp
  qed
  have 3: "v = padd xv (pscale (pv / (pv + 0.1)) (psub z xv))"
    if "kf_initialized f \<and> kf_x f = Some xv \<and> kf_p f = Some pv" for xv pv
  proof -
    from that have i: "kf_initialized f" and x: "kf_x f = Some xv" and p: "kf_p f = Some pv"
      by simp_all
    from round_estimate [OF assms(1) i x p, of z] assms(2) show ?thesis by simp
  qed
  from 1 2 3 show ?thesis by blast
qed

subsection \<open>Landmark sets of other lengths\<close>

lemma constructed_optimizer_ok:
  "HandTrackingOptimizer b = Inr s \<Longrightarrow> optimizer_ok s"
  by (auto simp: HandTrackingOptimizer_def optimizer_ok_def filter_ok_new list_all_length
           split: if_splits)

lemma smooth_landmarks_keeps_ok:
  assumes "optimizer_ok s"
  shows "optimizer_ok (snd (smooth_landmarks s lmo))"
proof (cases lmo)
  case None
  with assms show ?thesis by (simp add: smooth_landmarks_def)
next
  case (Some lm)
  from assms have "list_all filter_ok (kalman_filters s)" "length (kalman_filters s) = 21"
    by (simp_all add: optimizer_ok_def)
  with smooth_loop_keeps_ok [of "kalman_filters s" lm 0 "replicate (length lm) pzero"]
  show ?thesis
    by (auto simp: Some smooth_landmarks_def optimizer_ok_def split: prod.splits sum.splits)
qed

lemma after_calls_keeps_ok:
  "optimizer_ok s \<Longrightarrow> optimizer_ok (after_calls s cs)"
proof (induction cs arbitrary: s)
  case Nil
  then show ?case by simp
next
  case (Cons c cs)
  have "optimizer_ok (after_call s c)"
    using Cons.prems by (cases c) (simp_all add: smooth_landmarks_keeps_ok)
  from Cons.IH [OF this] show ?case by simp
qed

lemma smooth_landmarks_frame:
  assumes "optimizer_ok s" and "21 \<le> length lm"
  shows "\<exists>out. smooth_landmarks s (Some lm)
                 = (Inr (Some out), s\<lparr>kalman_filters := map2 kf_round (kalman_filters s) lm\<rparr>) \<and>
               length out = length lm \<and>
               (\<forall>j. 21 \<le> j \<and> j < length lm \<longrightarrow> out ! j = pzero) \<and>
               (\<forall>j < 21. kf_x (kf_round (kalman_filters s ! j) (lm ! j)) = Some (out ! j))"
proof -
  from assms(1) have ok: "list_all filter_ok (kalman_filters s)"
    and len: "length (kalman_filters s) = 21"
    by (simp_all add: optimizer_ok_def)
  from assms(2) len have "0 + length (kalman_filters s) \<le> length lm" by simp
  from smooth_loop_long [OF ok this, of "replicate (length lm) pzero"] obtain out where
    e: "smooth_loop lm 0 (kalman_filters s) (replicate (length lm) pzero)
          = (Inr out, map2 kf_round (kalman_filters s) lm)"
    and l: "length out = length lm"
    and outside: "\<forall>j. 21 \<le> j \<longrightarrow> out ! j = replicate (length lm) pzero ! j"
    and inside: "\<forall>j. j < 21 \<and> j < length lm \<longrightarrow>
                   kf_x (kf_round (kalman_filters s ! j) (lm ! j)) = Some (out ! j)"
    using len by auto
  have 1: "smooth_landmarks s (Some lm)
             = (Inr (Some out), s\<lparr>kalman_filters := map2 kf_round (kalman_filters s) lm\<rparr>)"
    by (simp add: smooth_landmarks_def e)
  have 2: "\<forall>j. 21 \<le> j \<and> j < length lm \<longrightarrow> out ! j = pzero"
    using outside by simp
  have 3: "\<forall>j < 21. kf_x (kf_round (kalman_filters s ! j) (lm ! j)) = Some (out ! j)"
    using inside assms(2) by auto
  from 1 l 2 3 show ?thesis by blast
qed

lemma count_extended_fingers_short:
  "length lm < 21 \<Longrightarrow> count_extended_fingers lm = Inl IndexError"
  by (simp add: count_extended_fingers_def finger_tips_def finger_pips_def row_def)

lemma count_extended_fingers_prefix:
  "21 \<le> length lm \<Longrightarrow> count_extended_fingers lm = count_extended_fingers (take 21 lm)"
  by (simp add: count_extended_fingers_def finger_tips_def finger_pips_def row_def)

text \<open>
  C3, as amended. A missing landmark set gives None. A set with fewer than 21 rows
  makes \<open>smooth_landmarks\<close> (on a well-formed optimizer), \<open>_count_extended_fingers\<close>
  and \<open>detect_gesture\<close> raise IndexError, and the recognizer is left as it was. A set
  with 21 rows or more raises nothing: \<open>smooth_landmarks\<close> passes each of the first 21
  rows through its filter (every filter makes one \<open>update\<close> and one \<open>predict\<close>) and
  returns an array of the input's length in which row j below 21 is what \<open>update\<close> of
  filter j returns for row j of the input (the row itself for a filter not yet
  initialized, x + k (z - x) with k = p / (p + 0.1) otherwise) and the rows from
  index 21 on are zero; the finger count is that of the first 21 rows.
\<close>

theorem landmark_length_handling:
  "smooth_landmarks s None = (Inr None, s) \<and>
   (optimizer_ok s \<and> length lm < 21 \<longrightarrow>
      fst (smooth_landmarks s (Some lm)) = Inl IndexError) \<and>
   (length lm < 21 \<longrightarrow>
      count_extended_fingers lm = Inl IndexError \<and>
      detect_gesture r (Some lm) = (Inl IndexError, r)) \<and>
   (optimizer_ok s \<and> 21 \<le> length lm \<longrightarrow>
      (\<exists>out. smooth_landmarks s (Some lm)
               = (Inr (Some out), s\<lparr>kalman_filters := map2 kf_round (kalman_filters s) lm\<rparr>) \<and>
             length out = length lm \<and>
             (\<forall>j. 21 \<le> j \<and> j < length lm \<longrightarrow> out ! j = pzero) \<and>
             (\<forall>j < 21.
                fst (update (kalman_filters s ! j) (lm ! j)) = Inr (out ! j) \<and>
                (\<not> kf_initialized (kalman_filters s ! j) \<longrightarrow> out ! j = lm ! j) \<and>
                (\<forall>xv pv. kf_initialized (kalman_filters s ! j) \<and>
                          kf_x (kalman_filters s ! j) = Some xv \<and>
                          kf_p (kalman_filters s ! j) = Some pv \<longrightarrow>
                   out ! j = padd xv (pscale (pv / (pv + 0.1)) (psub (lm ! j) xv)))))) \<and>
   (21 \<le> length lm \<longrightarrow>
      count_extended_fingers lm = count_extended_fingers (take 21 lm) \<and>
      (\<exists>c. count_extended_fingers lm = Inr c))"
proof -
  have p1: "smooth_landmarks s None = (Inr None, s)"
    by (simp add: smooth_landmarks_def)
  have p2: "fst (smooth_landmarks s (Some lm)) = Inl IndexError"
    if "optimizer_ok s" and "length lm < 21"
  proof -
    from that have "list_all filter_ok (kalman_filters s)" "0 \<le> length lm"
      "length lm < 0 + length (kalman_filters s)"
      by (simp_all add: optimizer_ok_def)
    from smooth_loop_short [OF this, of "replicate (length lm) pzero"]
    show ?thesis by (auto simp: smooth_landmarks_def split: prod.splits sum.splits)
  qed
  have p3: "count_extended_fingers lm = Inl IndexError \<and>
      detect_gesture r (Some lm) = (Inl IndexError, r)" if "length lm < 21"
    using count_extended_fingers_short [OF that] by (simp add: detect_gesture_def)
  have p4: "\<exists>out. smooth_landmarks s (Some lm)
               = (Inr (Some out), s\<lparr>kalman_filters := map2 kf_round (kalman_filters s) lm\<rparr>) \<and>
             length out = length lm \<and>
             (\<forall>j. 21 \<le> j \<and> j < length lm \<longrightarrow> out ! j = pzero) \<and>
             (\<forall>j < 21.
                fst (update (kalman_filters s ! j) (lm ! j)) = Inr (out ! j) \<and>
                (\<not> kf_initialized (kalman_filters s ! j) \<longrightarrow> out ! j = lm ! j) \<and>
                (\<forall>xv pv. kf_initialized (kalman_filters s ! j) \<and>
                          kf_x (kalman_filters s ! j) = Some xv \<and>
                          kf_p (kalman_filters s ! j) = Some pv \<longrightarrow>
                   out ! j = padd xv (pscale (pv / (pv + 0.1)) (psub (lm ! j) xv))))"
    if ok: "optimizer_ok s" and len: "21 \<le> length lm"
  proof -
    from smooth_landmarks_frame [OF ok len] obtain out where
      e: "smooth_landmarks s (Some lm)
            = (Inr (Some out), s\<lparr>kalman_filters := map2 kf_round (kalman_filters s) lm\<rparr>)"
      and l: "length out = length lm"
      and z: "\<forall>j. 21 \<le> j \<and> j < length lm \<longrightarrow> out ! j = pzero"
      and x: "\<forall>j < 21. kf_x (kf_round (kalman_filters s ! j) (lm ! j)) = Some (out ! j)"
      by blast
    have rows: "fst (update (kalman_filters s ! j) (lm ! j)) = Inr (out ! j) \<and>
                (\<not> kf_initialized (kalman_filters s ! j) \<longrightarrow> out ! j = lm ! j) \<and>
                (\<forall>xv pv. kf_initialized (kalman_filters s ! j) \<and>
                          kf_x (kalman_filters s ! j) = Some xv \<and>
                          kf_p (kalman_filters s ! j) = Some pv \<longrightarrow>
                   out ! j = padd xv (pscale (pv / (pv + 0.1)) (psub (lm ! j) xv)))"
      if j: "j < 21" for j
    proof -
      from ok j have f: "filter_ok (kalman_filters s ! j)"
        by (simp add: optimizer_ok_def list_all_length)
      from x j have "kf_x (kf_round (kalman_filters s ! j) (lm ! j)) = Some (out ! j)" by blast
      from round_output [OF f this] show ?thesis .
    qed
    from e l z rows show ?thesis by blast
  qed
  have p5: "count_extended_fingers lm = count_extended_fingers (take 21 lm) \<and>
      (\<exists>c. count_extended_fingers lm = Inr c)" if "21 \<le> length lm"
    using count_extended_fingers_prefix [OF that] count_extended_fingers_ok [OF that] by blast
  have q2: "optimizer_ok s \<and> length lm < 21 \<longrightarrow>
      fst (smooth_landmarks s (Some lm)) = Inl IndexError"
    using p2 by blast
  have q3: "length lm < 21 \<longrightarrow>
      count_extended_fingers lm = Inl IndexError \<and>
      detect_gesture r (Some lm) = (Inl IndexError, r)"
    using p3 by blast
  have q5: "21 \<le> length lm \<longrightarrow>
      count_extended_fingers lm = count_extended_fingers (take 21 lm) \<and>
      (\<exists>c. count_extended_fingers lm = Inr c)"
    using p5 by blast
  show ?thesis
  proof (rule conjI [OF p1 conjI [OF q2 conjI [OF q3 conjI [OF _ q5]]]], rule impI)
    assume "optimizer_ok s \<and> 21 \<le> length lm"
    then have "optimizer_ok s" "21 \<le> length lm" by simp_all
    then show "\<exists>out. smooth_landmarks s (Some lm)
               = (Inr (Some out), s\<lparr>kalman_filters := map2 kf_round (kalman_filters s) lm\<rparr>) \<and>
             length out = length lm \<and>
             (\<forall>j. 21 \<le> j \<and> j < length lm \<longrightarrow> out ! j = pzero) \<and>
             (\<forall>j < 21.
                fst (update (kalman_filters s ! j) (lm ! j)) = Inr (out ! j) \<and>
                (\<not> kf_initialized (kalman_filters s ! j) \<longrightarrow> out ! j = lm ! j) \<and>
                (\<forall>xv pv. kf_initialized (kalman_filters s ! j) \<and>
                          kf_x (kalman_filters s ! j) = Some xv \<and>
                          kf_p (kalman_filters s ! j) = Some pv \<longrightarrow>
                   out ! j = padd xv (pscale (pv / (pv + 0.1)) (psub (lm ! j) xv))))"
      by (rule p4)
  qed
qed

theorem landmark_length_handling_witness:
  "optimizer_ok \<lparr>buffer_size = 5, kalman_filters = replicate 21 (KalmanFilter default_dt),
                 position_buffer = [], velocity_history = []\<rparr> \<and>
   length (replicate 20 (1 :: real, 1 :: real, 1 :: real)) < 21 \<and>
   fst (smooth_landmarks
          \<lparr>buffer_size = 5, kalman_filters = replicate 21 (KalmanFilter default_dt),
           position_buffer = [], velocity_history = []\<rparr>
          (Some (replicate 20 (1, 1, 1)))) = Inl IndexError \<and>
   count_extended_fingers (replicate 20 (1, 1, 1)) = Inl IndexError \<and>
   21 \<le> length (replicate 22 (1 :: real, 2 :: real, 3 :: real)) \<and>
   (\<exists>out. fst (smooth_landmarks
                  \<lparr>buffer_size = 5, kalman_filters = replicate 21 (KalmanFilter default_dt),
                   position_buffer = [], velocity_history = []\<rparr>
                  (Some (replicate 22 (1, 2, 3)))) = Inr (Some out) \<and>
          length out = 22 \<and> out ! 4 = (1, 2, 3) \<and> out ! 21 = (0, 0, 0)) \<and>
   count_extended_fingers (replicate 22 (1, 2, 3))
     = count_extended_fingers (take 21 (replicate 22 (1, 2, 3)))"
proof -
  let ?s = "\<lparr>buffer_size = 5, kalman_filters = replicate 21 (KalmanFilter default_dt),
             position_buffer = [], velocity_history = []\<rparr>"
  have ok: "optimizer_ok ?s"
    by (simp add: optimizer_ok_def filter_ok_new list_all_length)
  have short: "length (replicate 20 (1 :: real, 1 :: real, 1 :: real)) < 21" by simp
  have long: "21 \<le> length (replicate 22 (1 :: real, 2 :: real, 3 :: real))" by simp
  note a = landmark_length_handling [where s = ?s and lm = "replicate 20 (1, 1, 1)"]
  note b = landmark_length_handling [where s = ?s and lm = "replicate 22 (1, 2, 3)"]
  from a [THEN conjunct2, THEN conjunct1, THEN mp, OF conjI [OF ok short]]
  have 1: "fst (smooth_landmarks ?s (Some (replicate 20 (1, 1, 1)))) = Inl IndexError" .
  from a [THEN conjunct2, THEN conjunct2, THEN conjunct1, THEN mp, OF short]
  have 2: "count_extended_fingers (replicate 20 (1, 1, 1)) = Inl IndexError" by (rule conjunct1)
  from b [THEN conjunct2, THEN conjunct2, THEN conjunct2, THEN conjunct1, THEN mp,
          OF conjI [OF ok long]]
  obtain out where
    e: "smooth_landmarks ?s (Some (replicate 22 (1, 2, 3)))
          = (Inr (Some out), ?s\<lparr>kalman_filters := map2 kf_round (kalman_filters ?s) (replicate 22 (1, 2, 3))\<rparr>)"
    and l: "length out = length (replicate 22 (1 :: real, 2 :: real, 3 :: real))"
    and z: "\<forall>j. 21 \<le> j \<and> j < length (replicate 22 (1 :: real, 2 :: real, 3 :: real)) \<longrightarrow> out ! j = pzero"
    and rows: "\<forall>j < 21. \<not> kf_initialized (kalman_filters ?s ! j) \<longrightarrow> out ! j = replicate 22 (1, 2, 3) ! j"
    by blast
  from rows have r4: "out ! 4 = (1, 2, 3)" by (simp add: KalmanFilter_def)
  from z have r21: "out ! 21 = (0, 0, 0)" by (simp add: pzero_def)
  from b [THEN conjunct2, THEN conjunct2, THEN conjunct2, THEN conjunct2, THEN mp, OF long]
  have 3: "count_extended_fingers (replicate 22 (1, 2, 3))
     = count_extended_fingers (take 21 (replicate 22 (1, 2, 3)))" by (rule conjunct1)
  from e l r4 r21 have 4: "\<exists>out. fst (smooth_landmarks ?s (Some (replicate 22 (1, 2, 3)))) = Inr (Some out) \<and>
          length out = 22 \<and> out ! 4 = (1, 2, 3) \<and> out ! 21 = (0, 0, 0)"
    by simp
  from ok short long 1 2 3 4 show ?thesis by blast
qed

text \<open>
  C3 as stated fails for a set of 22 rows: \<open>smooth_landmarks\<close> of a new optimizer
  returns 21 filtered rows and a last row of zeros, and the finger count is 0; no
  error is raised by either.
\<close>

theorem longer_landmark_set_counterexample:
  "length (replicate 22 (1 :: real, 1 :: real, 1 :: real)) \<noteq> 21 \<and>
   fst (smooth_landmarks
          \<lparr>buffer_size = 5, kalman_filters = replicate 21 (KalmanFilter default_dt),
           position_buffer = [], velocity_history = []\<rparr>
          (Some (replicate 22 (1, 1, 1))))
     = Inr (Some (replicate 21 (1, 1, 1) @ [(0, 0, 0)])) \<and>
   count_extended_fingers (replicate 22 (1, 1, 1)) = Inr 0"
  by code_simp

subsection \<open>A constant input stream\<close>



lemma frame_result_ok:
  assumes "optimizer_ok s" and "21 \<le> length lm"
  shows "optimizer_ok (snd (frame_result s lm n)) \<and>
         (\<exists>out. fst (frame_result s lm n) = Inr (Some out) \<and> length out = length lm \<and>
            (\<forall>j < 21. kf_initialized (kalman_filters (snd (frame_result s lm n)) ! j) \<and>
                      kf_x (kalman_filters (snd (frame_result s lm n)) ! j) = Some (out ! j)))"
proof -
  have step: "optimizer_ok (snd (smooth_landmarks t (Some lm))) \<and>
         (\<exists>out. fst (smooth_landmarks t (Some lm)) = Inr (Some out) \<and> length out = length lm \<and>
            (\<forall>j < 21. kf_initialized (kalman_filters (snd (smooth_landmarks t (Some lm))) ! j) \<and>
                      kf_x (kalman_filters (snd (smooth_landmarks t (Some lm))) ! j) = Some (out ! j)))"
    if t: "optimizer_ok t" for t
  proof -
    from t have len: "length (kalman_filters t) = 21"
      and ok: "list_all filter_ok (kalman_filters t)"
      by (simp_all add: optimizer_ok_def)
    from smooth_landmarks_frame [OF t assms(2)] obtain out where
      e: "smooth_landmarks t (Some lm)
            = (Inr (Some out), t\<lparr>kalman_filters := map2 kf_round (kalman_filters t) lm\<rparr>)"
      and l: "length out = length lm"
      and x: "\<forall>j < 21. kf_x (kf_round (kalman_filters t ! j) (lm ! j)) = Some (out ! j)"
      by blast
    have init: "kf_initialized (kf_round (kalman_filters t ! j) (lm ! j))" if "j < 21" for j
    proof -
      from that len ok have "filter_ok (kalman_filters t ! j)"
        by (simp add: list_all_length)
      from predict_after_update [OF this, of "lm ! j"] show ?thesis by blast
    qed
    have nth: "map2 kf_round (kalman_filters t) lm ! j = kf_round (kalman_filters t ! j) (lm ! j)"
      if "j < 21" for j
      using that len assms(2) by simp
    show ?thesis
      using smooth_landmarks_keeps_ok [OF t, of "Some lm"] l x init nth
      by (simp add: e)
  qed
  show ?thesis
  proof (induction n)
    case 0
    show ?case using step [OF assms(1)] by simp
  next
    case (Suc n)
    then have "optimizer_ok (snd (frame_result s lm n))" by blast
    from step [OF this] show ?case by simp
  qed
qed

text \<open>
  From a newly constructed optimizer the first \<open>update\<close> of each filter stores the
  input row, and every later one leaves it there: the output of every frame is the
  input in its first 21 rows.
\<close>

lemma round_fixed:
  assumes "filter_ok g" and "kf_initialized g \<longrightarrow> kf_x g = Some z"
  shows "kf_x (kf_round g z) = Some z"
proof (cases "kf_initialized g")
  case False
  then show ?thesis by (simp add: kf_round_def update_def predict_def)
next
  case True
  with assms(2) have x: "kf_x g = Some z" by simp
  from assms(1) True obtain pv where p: "kf_p g = Some pv"
    by (auto simp: filter_ok_def split: option.splits)
  from round_estimate [OF assms(1) True x p, of z]
  have "kf_x (kf_round g z) = Some (padd z (pscale (pv / (pv + 1 / 10)) (psub z z)))"
    by simp
  moreover have "padd z (pscale (pv / (pv + 1 / 10)) (psub z z)) = z"
    by (cases z) (simp add: padd_def pscale_def psub_def)
  ultimately show ?thesis by simp
qed

lemma smooth_landmarks_filter_nth:
  assumes "optimizer_ok t" and "21 \<le> length lm" and "j < 21"
  shows "kalman_filters (snd (smooth_landmarks t (Some lm))) ! j
           = kf_round (kalman_filters t ! j) (lm ! j)"
proof -
  from assms(1) have len: "length (kalman_filters t) = 21" by (simp add: optimizer_ok_def)
  from smooth_landmarks_frame [OF assms(1,2)] obtain out where
    "smooth_landmarks t (Some lm)
       = (Inr (Some out), t\<lparr>kalman_filters := map2 kf_round (kalman_filters t) lm\<rparr>)"
    by blast
  then show ?thesis using len assms(2,3) by simp
qed

lemma fresh_stream_identity:
  assumes "HandTrackingOptimizer b = Inr s" and "21 \<le> length lm" and "i < 21"
  shows "\<exists>out. fst (frame_result s lm n) = Inr (Some out) \<and> out ! i = lm ! i"
proof -
  have ok: "optimizer_ok s" by (rule constructed_optimizer_ok [OF assms(1)])
  from assms(1) have fresh: "kalman_filters s ! i = KalmanFilter default_dt"
    using assms(3) by (auto simp: HandTrackingOptimizer_def split: if_splits)
  have est: "kf_x (kalman_filters (snd (frame_result s lm n)) ! i) = Some (lm ! i)"
  proof (induction n)
    case 0
    have g: "filter_ok (kalman_filters s ! i)" by (simp add: fresh filter_ok_new)
    have "kf_initialized (kalman_filters s ! i) \<longrightarrow> kf_x (kalman_filters s ! i) = Some (lm ! i)"
      by (simp add: fresh KalmanFilter_def)
    from round_fixed [OF g this] show ?case
      by (simp add: smooth_landmarks_filter_nth [OF ok assms(2,3)])
  next
    case (Suc n)
    let ?t = "snd (frame_result s lm n)"
    from frame_result_ok [OF ok assms(2), of n] have t: "optimizer_ok ?t" by blast
    with assms(3) have g: "filter_ok (kalman_filters ?t ! i)"
      by (simp add: optimizer_ok_def list_all_length)
    from Suc.IH have "kf_initialized (kalman_filters ?t ! i) \<longrightarrow>
                       kf_x (kalman_filters ?t ! i) = Some (lm ! i)" by simp
    from round_fixed [OF g this] show ?case
      by (simp add: smooth_landmarks_filter_nth [OF t assms(2,3)])
  qed
  from frame_result_ok [OF ok assms(2), of n] assms(3) obtain out where
    "fst (frame_result s lm n) = Inr (Some out)"
    "kf_x (kalman_filters (snd (frame_result s lm n)) ! i) = Some (out ! i)"
    by blast
  with est show ?thesis by auto
qed



end
